theory Spec2Isabelle
  imports Main
begin

section \<open>ZonedAsyncPipe: the data model\<close>

text \<open>
  The pipe of \<^verbatim>\<open>src/zone-async.pipe.ts\<close> caches the latest value of an Observable
  and hands it to the template on every change-detection pass. The values it caches are
  JavaScript values of type \<^verbatim>\<open>any\<close>; the pipe compares them with \<^verbatim>\<open>===\<close>, which is
  equality of primitives and identity of objects, except that \<^verbatim>\<open>NaN === NaN\<close> is false.
\<close>

datatype val = VNull | VUndefined | VNaN | VNum int | VStr string | VRef nat

definition strict_eq :: "val \<Rightarrow> val \<Rightarrow> bool" where
  "strict_eq a b = (a = b \<and> a \<noteq> VNaN)"

text \<open>
  The argument of \<^verbatim>\<open>transform\<close> is \<^verbatim>\<open>Observable<any> | null | undefined\<close>. An Observable
  is an object: it is truthy and \<^verbatim>\<open>!==\<close> compares its identity, a number here.
\<close>

datatype input = NullArg | UndefinedArg | Obs nat

text \<open>What \<^verbatim>\<open>transform\<close> returns: the value itself, or \<^verbatim>\<open>WrappedValue.wrap\<close> of it.\<close>

datatype rendered = Plain val | Wrapped val

fun unwrap :: "rendered \<Rightarrow> val" where
  "unwrap (Plain v) = v"
| "unwrap (Wrapped v) = v"

text \<open>
  \<^verbatim>\<open>TypeError\<close> is what \<^verbatim>\<open>this._subscription.unsubscribe()\<close> raises on a null handle;
  \<^verbatim>\<open>Thrown e\<close> is the \<^verbatim>\<open>throw e\<close> of the error callback.
\<close>

datatype exn = TypeError | Thrown val

text \<open>The two scheduling contexts: inside the Angular zone and outside of it.\<close>

datatype zone = Tracked | Untracked

text \<open>
  What the pipe does to its surroundings, in order: a subscription established (producer,
  handle, the zone the call ran in), a handle unsubscribed, a value written to
  \<^verbatim>\<open>_latestValue\<close> and a \<^verbatim>\<open>markForCheck\<close> (each with the zone it ran in).
\<close>

datatype event =
    Subscribed nat nat zone
  | Unsubscribed nat
  | Cached val zone
  | Marked zone

text \<open>
  One entry per subscription ever handed out; the handle is its index. \<^verbatim>\<open>cancelled\<close> is
  set by \<^verbatim>\<open>unsubscribe\<close>, \<^verbatim>\<open>ended\<close> when the producer has signalled an error.
\<close>

record sub_rec =
  producer :: nat
  origin :: zone
  cancelled :: bool
  ended :: bool

text \<open>
  The four private fields of the class, followed by the surroundings: the zone the
  running code is in, the subscriptions, the number of \<^verbatim>\<open>markForCheck\<close> calls,
  the events so far, and the exceptions that have left the pipe, each with the zone it was
  thrown in.
\<close>

record world =
  latestValue :: val
  latestReturnedValue :: val
  subscription :: "nat option"
  obj :: "nat option"
  zone :: zone
  subs :: "sub_rec list"
  checks :: nat
  trace :: "event list"
  raised :: "(exn \<times> zone) list"

definition init :: "zone \<Rightarrow> world" where
  "init z = \<lparr>latestValue = VNull, latestReturnedValue = VNull, subscription = None,
             obj = None, zone = z, subs = [], checks = 0, trace = [], raised = []\<rparr>"

definition binding :: "world \<Rightarrow> val \<times> val \<times> nat option \<times> nat option" where
  "binding w = (latestValue w, latestReturnedValue w, subscription w, obj w)"

section \<open>The framework the pipe calls\<close>

text \<open>
  Modelled from the spec: \<^verbatim>\<open>NgZone\<close> is not part of the source. \<^verbatim>\<open>run\<close> executes its
  argument synchronously in the tracked context and \<^verbatim>\<open>runOutsideAngular\<close> in the
  untracked one; both come back to the context of the caller, also when the argument
  throws, and hand on its result or its exception.
\<close>

definition ngZone_run :: "(world \<Rightarrow> world) \<Rightarrow> world \<Rightarrow> world" where
  "ngZone_run f w = (f (w\<lparr>zone := Tracked\<rparr>))\<lparr>zone := zone w\<rparr>"

definition runOutsideAngular :: "(world \<Rightarrow> 'a \<times> world) \<Rightarrow> world \<Rightarrow> 'a \<times> world" where
  "runOutsideAngular f w =
     (case f (w\<lparr>zone := Untracked\<rparr>) of (r, w') \<Rightarrow> (r, w'\<lparr>zone := zone w\<rparr>))"

text \<open>
  Modelled from the spec: \<^verbatim>\<open>ChangeDetectorRef.markForCheck\<close> requests a refresh; the
  model counts the requests.
\<close>

definition markForCheck :: "world \<Rightarrow> world" where
  "markForCheck w = w\<lparr>checks := Suc (checks w), trace := trace w @ [Marked (zone w)]\<rparr>"

text \<open>
  Modelled from the spec: \<^verbatim>\<open>ISubscription.unsubscribe\<close> cancels the listen registration
  behind a handle.
\<close>

definition unsubscribe :: "nat \<Rightarrow> world \<Rightarrow> world" where
  "unsubscribe h w =
     w\<lparr>subs := (if h < length (subs w) then (subs w)[h := (subs w ! h)\<lparr>cancelled := True\<rparr>]
                else subs w),
       trace := trace w @ [Unsubscribed h]\<rparr>"

section \<open>The pipe\<close>

text \<open>
  \<^verbatim>\<open>_updateLatestValue(async, value)\<close>: the identity check against the bound source,
  then the write and the refresh request.
\<close>

definition updateLatestValue :: "nat \<Rightarrow> val \<Rightarrow> world \<Rightarrow> world" where
  "updateLatestValue async v w =
     (if Some async = obj w
      then markForCheck (w\<lparr>latestValue := v, trace := trace w @ [Cached v (zone w)]\<rparr>)
      else w)"

text \<open>
  The two callbacks that \<^verbatim>\<open>_subscribe\<close> hands to the producer:
  \<^verbatim>\<open>value => this.ngZone.run(() => this._updateLatestValue(obj, value))\<close> and
  \<^verbatim>\<open>e => { throw e; }\<close>.
\<close>

definition on_next :: "nat \<Rightarrow> val \<Rightarrow> world \<Rightarrow> world" where
  "on_next p v w = ngZone_run (updateLatestValue p v) w"

definition on_error :: "val \<Rightarrow> world \<Rightarrow> (exn + unit) \<times> world" where
  "on_error e w = (Inl (Thrown e), w)"

text \<open>
  Modelled from the spec: \<^verbatim>\<open>Observable.subscribe(next, error)\<close> is the producer's side.
  It registers the listener in the context the call runs in and, before it returns,
  delivers to \<^verbatim>\<open>next\<close> the values \<open>sync\<close> that this producer emits at once (none for a
  timer, the current value for a replaying subject). A producer may also signal an error
  \<open>er\<close> at once: its stream has ended, the \<^verbatim>\<open>error\<close> callback runs, and what that
  callback throws leaves \<^verbatim>\<open>subscribe\<close> in place of a handle.
\<close>

definition obs_subscribe ::
  "nat \<Rightarrow> val list \<Rightarrow> val option \<Rightarrow> world \<Rightarrow> (exn + nat) \<times> world" where
  "obs_subscribe p sync er w =
     (let h = length (subs w);
          w1 = w\<lparr>subs := subs w @ [\<lparr>producer = p, origin = zone w, cancelled = False,
                                    ended = False\<rparr>],
                 trace := trace w @ [Subscribed p h (zone w)]\<rparr>;
          w2 = fold (on_next p) sync w1
      in case er of
           None \<Rightarrow> (Inr h, w2)
         | Some e \<Rightarrow>
             (case on_error e (w2\<lparr>subs := (subs w2)[h := (subs w2 ! h)\<lparr>ended := True\<rparr>]\<rparr>) of
                (Inl x, w3) \<Rightarrow> (Inl x, w3)
              | (Inr u, w3) \<Rightarrow> (Inr h, w3)))"

text \<open>
  \<^verbatim>\<open>_subscribe(obj)\<close>: the source is recorded first, the handle once the call is back. An
  exception from the call leaves before the handle is assigned.
\<close>

definition subscribe :: "nat \<Rightarrow> val list \<Rightarrow> val option \<Rightarrow> world \<Rightarrow> (exn + unit) \<times> world" where
  "subscribe p sync er w =
     (case runOutsideAngular (obs_subscribe p sync er) (w\<lparr>obj := Some p\<rparr>) of
        (Inl x, w') \<Rightarrow> (Inl x, w')
      | (Inr h, w') \<Rightarrow> (Inr (), w'\<lparr>subscription := Some h\<rparr>))"

text \<open>
  \<^verbatim>\<open>_dispose()\<close>: the first statement dereferences the handle, so a null handle raises
  before anything is cleared.
\<close>

definition dispose :: "world \<Rightarrow> exn + world" where
  "dispose w =
     (case subscription w of
        None \<Rightarrow> Inl TypeError
      | Some h \<Rightarrow>
          Inr ((unsubscribe h w)\<lparr>latestValue := VNull, latestReturnedValue := VNull,
                                 subscription := None, obj := None\<rparr>))"

definition ngOnDestroy :: "world \<Rightarrow> exn + world" where
  "ngOnDestroy w = (if subscription w \<noteq> None then dispose w else Inr w)"

text \<open>
  \<^verbatim>\<open>transform(obj)\<close>. \<open>sync\<close> and \<open>er\<close> are what the producer emits and signals during
  \<^verbatim>\<open>subscribe\<close>, should this call subscribe. The result comes with the state the call
  leaves behind, also when it throws.
\<close>

function transform ::
  "input \<Rightarrow> val list \<Rightarrow> val option \<Rightarrow> world \<Rightarrow> (exn + rendered) \<times> world" where
  "transform a sync er w =
     (case obj w of
        None \<Rightarrow>
          (case (case a of Obs p \<Rightarrow> subscribe p sync er w | _ \<Rightarrow> (Inr (), w)) of
             (Inl x, w1) \<Rightarrow> (Inl x, w1)
           | (Inr u, w1) \<Rightarrow>
               (Inr (Plain (latestValue w1)), w1\<lparr>latestReturnedValue := latestValue w1\<rparr>))
      | Some cur \<Rightarrow>
          if a \<noteq> Obs cur then
            (case dispose w of
               Inl x \<Rightarrow> (Inl x, w)
             | Inr w' \<Rightarrow> transform a sync er w')
          else if strict_eq (latestValue w) (latestReturnedValue w) then
            (Inr (Plain (latestReturnedValue w)), w)
          else
            (Inr (Wrapped (latestValue w)), w\<lparr>latestReturnedValue := latestValue w\<rparr>))"
  by pat_completeness auto
termination
  by (relation "measure (\<lambda>(a, sync, er, w). if obj w = None then 0 else 1)")
     (auto simp: dispose_def split: option.splits)

declare transform.simps [simp del]

section \<open>The host and the producers\<close>

text \<open>
  Modelled from the spec: the producer's side of a subscription. A producer delivers a
  value through a handle that is neither unsubscribed nor ended (\<open>emit\<close>), and
  signalling an error ends the stream of that handle (\<open>fail\<close>): the error callback
  runs and what it throws goes back to the producer's caller. \<open>late\<close> is the
  \<^verbatim>\<open>next\<close> callback of a handle invoked whatever the state of the handle, the late
  delivery that the identity check of \<^verbatim>\<open>_updateLatestValue\<close> is there for.
\<close>

definition open_sub :: "nat \<Rightarrow> world \<Rightarrow> bool" where
  "open_sub h w = (h < length (subs w) \<and> \<not> cancelled (subs w ! h) \<and> \<not> ended (subs w ! h))"

definition late :: "nat \<Rightarrow> val \<Rightarrow> world \<Rightarrow> world" where
  "late h v w = (if h < length (subs w) then on_next (producer (subs w ! h)) v w else w)"

definition emit :: "nat \<Rightarrow> val \<Rightarrow> world \<Rightarrow> world" where
  "emit h v w = (if open_sub h w then on_next (producer (subs w ! h)) v w else w)"

definition fail :: "nat \<Rightarrow> val \<Rightarrow> world \<Rightarrow> (exn + unit) \<times> world" where
  "fail h e w =
     (if open_sub h w then on_error e (w\<lparr>subs := (subs w)[h := (subs w ! h)\<lparr>ended := True\<rparr>]\<rparr>)
      else (Inr (), w))"

text \<open>
  What can happen to a pipe, one step at a time: the host renders or tears down, a
  producer delivers or signals an error, and the ambient context changes between calls.
  An exception leaves the state as it was when it was raised and is logged with the
  context it was thrown in: that of the host's call for a render or a teardown, that of
  the producer's call for the error callback, which does not go through \<^verbatim>\<open>ngZone.run\<close>.
\<close>

datatype op =
    Render input "val list" "val option"
  | Emit nat val
  | Late nat val
  | Fail nat val
  | Teardown
  | Hop zone

definition throw :: "exn \<Rightarrow> world \<Rightarrow> world" where
  "throw x w = w\<lparr>raised := raised w @ [(x, zone w)]\<rparr>"

fun exec :: "op \<Rightarrow> world \<Rightarrow> world" where
  "exec (Render a sync er) w =
     (case transform a sync er w of (Inl x, w') \<Rightarrow> throw x w' | (Inr r, w') \<Rightarrow> w')"
| "exec (Emit h v) w = emit h v w"
| "exec (Late h v) w = late h v w"
| "exec (Fail h e) w = (case fail h e w of (Inl x, w') \<Rightarrow> throw x w' | (Inr u, w') \<Rightarrow> w')"
| "exec Teardown w = (case ngOnDestroy w of Inl x \<Rightarrow> throw x w | Inr w' \<Rightarrow> w')"
| "exec (Hop z) w = w\<lparr>zone := z\<rparr>"

definition run :: "op list \<Rightarrow> world \<Rightarrow> world" where
  "run ops w = fold exec ops w"

section \<open>Invariants\<close>

text \<open>The handle is present exactly when the source is.\<close>

definition paired :: "world \<Rightarrow> bool" where
  "paired w = ((subscription w = None) = (obj w = None))"

text \<open>
  A well-formed state: an unbound pipe has no handle and caches nothing, the registered
  handle is a subscription to the bound source that has not been unsubscribed, and no
  other handle is left through which a producer may deliver.
\<close>

definition wf :: "world \<Rightarrow> bool" where
  "wf w =
     ((obj w = None \<longrightarrow>
         subscription w = None \<and> latestValue w = VNull \<and> latestReturnedValue w = VNull)
      \<and> (case subscription w of
           None \<Rightarrow> True
         | Some h \<Rightarrow> h < length (subs w) \<and> obj w = Some (producer (subs w ! h))
                     \<and> \<not> cancelled (subs w ! h))
      \<and> (\<forall>i \<in> set [0..<length (subs w)].
           subscription w = Some i \<or> cancelled (subs w ! i) \<or> ended (subs w ! i)))"

text \<open>The context each kind of event has to happen in.\<close>

fun zone_ok :: "event \<Rightarrow> bool" where
  "zone_ok (Subscribed p h z) = (z = Untracked)"
| "zone_ok (Unsubscribed h) = True"
| "zone_ok (Cached v z) = (z = Tracked)"
| "zone_ok (Marked z) = (z = Tracked)"

text \<open>
  The listen registrations that the tracked context still waits for: those made in it that
  are neither unsubscribed nor ended.
\<close>

definition tracked_pending :: "world \<Rightarrow> sub_rec list" where
  "tracked_pending w = [s \<leftarrow> subs w. origin s = Tracked \<and> \<not> cancelled s \<and> \<not> ended s]"

text \<open>The events of delivering a list of values to a pipe bound to their producer.\<close>

fun deliveries :: "val list \<Rightarrow> event list" where
  "deliveries [] = []"
| "deliveries (v # vs) = Cached v Tracked # Marked Tracked # deliveries vs"


text \<open>
  Every event so far happened in its context, every subscription was made in the
  untracked one, and every refresh request is one of the logged ones.
\<close>

definition zoned :: "world \<Rightarrow> bool" where
  "zoned w =
     (list_all zone_ok (trace w) \<and> list_all (\<lambda>s. origin s = Untracked) (subs w)
      \<and> checks w = length [e \<leftarrow> trace w. e = Marked Tracked])"


section \<open>The callbacks and the subscription, step by step\<close>

lemma on_next_stale: "obj w \<noteq> Some p \<Longrightarrow> on_next p v w = w"
  by (auto simp: on_next_def ngZone_run_def updateLatestValue_def)

lemma on_next_bound:
  "obj w = Some p \<Longrightarrow>
   on_next p v w = w\<lparr>latestValue := v, checks := Suc (checks w),
                      trace := trace w @ [Cached v Tracked, Marked Tracked]\<rparr>"
  by (simp add: on_next_def ngZone_run_def updateLatestValue_def markForCheck_def)

lemma on_next_frame [simp]:
  "obj (on_next p v w) = obj w"
  "subscription (on_next p v w) = subscription w"
  "latestReturnedValue (on_next p v w) = latestReturnedValue w"
  "zone (on_next p v w) = zone w"
  "subs (on_next p v w) = subs w"
  "raised (on_next p v w) = raised w"
  by (simp_all add: on_next_def ngZone_run_def updateLatestValue_def markForCheck_def)

lemma on_next_latest:
  "latestValue (on_next p v w) = (if obj w = Some p then v else latestValue w)"
  by (auto simp: on_next_def ngZone_run_def updateLatestValue_def markForCheck_def)

lemma fold_on_next_frame [simp]:
  "obj (fold (on_next p) vs w) = obj w"
  "subscription (fold (on_next p) vs w) = subscription w"
  "latestReturnedValue (fold (on_next p) vs w) = latestReturnedValue w"
  "zone (fold (on_next p) vs w) = zone w"
  "subs (fold (on_next p) vs w) = subs w"
  "raised (fold (on_next p) vs w) = raised w"
  by (induction vs arbitrary: w) simp_all

lemma fold_on_next_latest:
  "obj w = Some p \<Longrightarrow>
   latestValue (fold (on_next p) vs w) = (if vs = [] then latestValue w else last vs)"
  by (induction vs arbitrary: w) (simp_all add: on_next_latest)

lemma fold_on_next_trace:
  "obj w = Some p \<Longrightarrow> trace (fold (on_next p) vs w) = trace w @ deliveries vs"
  by (induction vs arbitrary: w) (simp_all add: on_next_bound)

lemma fold_on_next_checks:
  "obj w = Some p \<Longrightarrow> checks (fold (on_next p) vs w) = checks w + length vs"
  by (induction vs arbitrary: w) (simp_all add: on_next_bound)

text \<open>A subscription that returns, and one that throws, written out.\<close>

lemma subscribe_returns:
  "subscribe p vs None w =
     (Inr (),
      w\<lparr>latestValue := (if vs = [] then latestValue w else last vs),
        subscription := Some (length (subs w)),
        obj := Some p,
        subs := subs w @ [\<lparr>producer = p, origin = Untracked, cancelled = False, ended = False\<rparr>],
        checks := checks w + length vs,
        trace := trace w @ Subscribed p (length (subs w)) Untracked # deliveries vs\<rparr>)"
proof -
  obtain r u where ru: "subscribe p vs None w = (r, u)" by (cases "subscribe p vs None w")
  have r: "r = Inr ()"
    using ru by (auto simp: subscribe_def runOutsideAngular_def obs_subscribe_def Let_def)
  have u: "u = (fold (on_next p) vs
            (w\<lparr>obj := Some p, zone := Untracked,
               subs := subs w @ [\<lparr>producer = p, origin = Untracked, cancelled = False,
                                  ended = False\<rparr>],
               trace := trace w @ [Subscribed p (length (subs w)) Untracked]\<rparr>))
            \<lparr>zone := zone w, subscription := Some (length (subs w))\<rparr>"
    using ru by (auto simp: subscribe_def runOutsideAngular_def obs_subscribe_def Let_def)
  have "u = w\<lparr>latestValue := (if vs = [] then latestValue w else last vs),
        subscription := Some (length (subs w)),
        obj := Some p,
        subs := subs w @ [\<lparr>producer = p, origin = Untracked, cancelled = False, ended = False\<rparr>],
        checks := checks w + length vs,
        trace := trace w @ Subscribed p (length (subs w)) Untracked # deliveries vs\<rparr>"
    unfolding u
    by (rule world.equality)
       (simp_all add: fold_on_next_latest fold_on_next_trace fold_on_next_checks)
  then show ?thesis using ru r by simp
qed

lemma subscribe_throws:
  "subscribe p vs (Some e) w =
     (Inl (Thrown e),
      w\<lparr>latestValue := (if vs = [] then latestValue w else last vs),
        obj := Some p,
        subs := subs w @ [\<lparr>producer = p, origin = Untracked, cancelled = False, ended = True\<rparr>],
        checks := checks w + length vs,
        trace := trace w @ Subscribed p (length (subs w)) Untracked # deliveries vs\<rparr>)"
proof -
  obtain r u where ru: "subscribe p vs (Some e) w = (r, u)" by (cases "subscribe p vs (Some e) w")
  let ?w2 = "fold (on_next p) vs
            (w\<lparr>obj := Some p, zone := Untracked,
               subs := subs w @ [\<lparr>producer = p, origin = Untracked, cancelled = False,
                                  ended = False\<rparr>],
               trace := trace w @ [Subscribed p (length (subs w)) Untracked]\<rparr>)"
  have r: "r = Inl (Thrown e)"
    using ru
    by (auto simp: subscribe_def runOutsideAngular_def obs_subscribe_def on_error_def Let_def)
  have u: "u = ?w2\<lparr>subs := (subs ?w2)[length (subs w) := (subs ?w2 ! length (subs w))\<lparr>ended := True\<rparr>],
                    zone := zone w\<rparr>"
    using ru
    by (auto simp: subscribe_def runOutsideAngular_def obs_subscribe_def on_error_def Let_def)
  have "u = w\<lparr>latestValue := (if vs = [] then latestValue w else last vs),
        obj := Some p,
        subs := subs w @ [\<lparr>producer = p, origin = Untracked, cancelled = False, ended = True\<rparr>],
        checks := checks w + length vs,
        trace := trace w @ Subscribed p (length (subs w)) Untracked # deliveries vs\<rparr>"
    unfolding u
    by (rule world.equality)
       (simp_all add: fold_on_next_latest fold_on_next_trace fold_on_next_checks)
  then show ?thesis using ru r by simp
qed

lemma transform_unbound_returns:
  "obj w = None \<Longrightarrow>
   transform (Obs p) vs None w =
     (Inr (Plain (if vs = [] then latestValue w else last vs)),
      w\<lparr>latestValue := (if vs = [] then latestValue w else last vs),
        latestReturnedValue := (if vs = [] then latestValue w else last vs),
        subscription := Some (length (subs w)),
        obj := Some p,
        subs := subs w @ [\<lparr>producer = p, origin = Untracked, cancelled = False, ended = False\<rparr>],
        checks := checks w + length vs,
        trace := trace w @ Subscribed p (length (subs w)) Untracked # deliveries vs\<rparr>)"
  by (subst transform.simps) (simp add: subscribe_returns)

lemma transform_unbound_throws:
  "obj w = None \<Longrightarrow>
   transform (Obs p) vs (Some e) w =
     (Inl (Thrown e),
      w\<lparr>latestValue := (if vs = [] then latestValue w else last vs),
        obj := Some p,
        subs := subs w @ [\<lparr>producer = p, origin = Untracked, cancelled = False, ended = True\<rparr>],
        checks := checks w + length vs,
        trace := trace w @ Subscribed p (length (subs w)) Untracked # deliveries vs\<rparr>)"
  by (subst transform.simps) (simp add: subscribe_throws)

lemma transform_unbound_absent:
  "obj w = None \<Longrightarrow> a = NullArg \<or> a = UndefinedArg \<Longrightarrow>
   transform a vs er w =
     (Inr (Plain (latestValue w)), w\<lparr>latestReturnedValue := latestValue w\<rparr>)"
  by (subst transform.simps) auto

lemma transform_rebind:
  "obj w = Some cur \<Longrightarrow> a \<noteq> Obs cur \<Longrightarrow>
   transform a vs er w =
     (case dispose w of Inl x \<Rightarrow> (Inl x, w) | Inr w' \<Rightarrow> transform a vs er w')"
  by (subst transform.simps) simp

lemma transform_same:
  "obj w = Some cur \<Longrightarrow>
   transform (Obs cur) vs er w =
     (if strict_eq (latestValue w) (latestReturnedValue w)
      then (Inr (Plain (latestReturnedValue w)), w)
      else (Inr (Wrapped (latestValue w)), w\<lparr>latestReturnedValue := latestValue w\<rparr>))"
  by (subst transform.simps) simp

lemma dispose_bound:
  "subscription w = Some h \<Longrightarrow>
   dispose w = Inr ((unsubscribe h w)\<lparr>latestValue := VNull, latestReturnedValue := VNull,
                                        subscription := None, obj := None\<rparr>)"
  by (simp add: dispose_def)

lemma dispose_broken: "subscription w = None \<Longrightarrow> dispose w = Inl TypeError"
  by (simp add: dispose_def)

lemma unsubscribe_subs:
  "length (subs (unsubscribe h w)) = length (subs w)"
  "producer (subs (unsubscribe h w) ! i) = producer (subs w ! i)"
  "h < length (subs w) \<Longrightarrow> cancelled (subs (unsubscribe h w) ! h)"
  by (cases "i = h"; simp add: unsubscribe_def)+

lemma ended_update_frame:
  "cancelled (xs[h := (xs ! h)\<lparr>ended := True\<rparr>] ! i) = cancelled (xs ! i)"
  "producer (xs[h := (xs ! h)\<lparr>ended := True\<rparr>] ! i) = producer (xs ! i)"
  "origin (xs[h := (xs ! h)\<lparr>ended := True\<rparr>] ! i) = origin (xs ! i)"
  by (cases "h < length xs"; simp add: nth_list_update list_update_beyond)+

text \<open>The definitions that evaluate a run on a concrete pipe.\<close>

lemmas pipe_eval =
  run_def transform.simps init_def subscribe_def runOutsideAngular_def obs_subscribe_def
  dispose_def unsubscribe_def on_next_def ngZone_run_def updateLatestValue_def markForCheck_def
  emit_def late_def open_sub_def fail_def on_error_def ngOnDestroy_def strict_eq_def throw_def
  Let_def

section \<open>Well-formed states stay well-formed\<close>

lemma wf_iff:
  "wf w \<longleftrightarrow>
     ((obj w = None \<longrightarrow>
         subscription w = None \<and> latestValue w = VNull \<and> latestReturnedValue w = VNull)
      \<and> (\<forall>h. subscription w = Some h \<longrightarrow>
             h < length (subs w) \<and> obj w = Some (producer (subs w ! h))
             \<and> \<not> cancelled (subs w ! h))
      \<and> (\<forall>i < length (subs w).
             subscription w = Some i \<or> cancelled (subs w ! i) \<or> ended (subs w ! i)))"
  by (cases "subscription w") (simp_all add: wf_def Ball_def)

lemma wf_init: "wf (init z)"
  by (simp add: wf_iff init_def)

lemma wf_on_next: "wf w \<Longrightarrow> wf (on_next p v w)"
  by (cases "obj w = Some p") (simp_all add: on_next_stale on_next_bound wf_iff)

lemma wf_throw: "wf w \<Longrightarrow> wf (throw x w)"
  by (simp add: wf_iff throw_def)

lemma unsubscribe_cancelled:
  "i < length (subs w) \<Longrightarrow>
   cancelled (subs (unsubscribe h w) ! i) = (i = h \<or> cancelled (subs w ! i))"
  by (cases "i = h") (simp_all add: unsubscribe_def)

lemma wf_dispose:
  assumes "wf w" "dispose w = Inr w'"
  shows "wf w'"
proof -
  obtain h where h: "subscription w = Some h"
    using assms(2) by (cases "subscription w") (simp_all add: dispose_def)
  then have w': "w' = (unsubscribe h w)\<lparr>latestValue := VNull, latestReturnedValue := VNull,
                                        subscription := None, obj := None\<rparr>"
    using assms(2) by (simp add: dispose_bound)
  have "cancelled (subs (unsubscribe h w) ! i) \<or> ended (subs (unsubscribe h w) ! i)"
    if "i < length (subs w)" for i
  proof (cases "i = h")
    case True
    then show ?thesis using that by (simp add: unsubscribe_cancelled)
  next
    case False
    then have "cancelled (subs w ! i) \<or> ended (subs w ! i)"
      using assms(1) h that by (auto simp: wf_iff)
    then show ?thesis using that False
      by (auto simp: unsubscribe_cancelled unsubscribe_def)
  qed
  then show ?thesis unfolding w' by (auto simp: wf_iff unsubscribe_subs)
qed

lemma wf_closed:
  assumes "wf w" "subscription w = None"
  shows "\<forall>i < length (subs w). cancelled (subs w ! i) \<or> ended (subs w ! i)"
  using assms by (simp add: wf_iff)

lemma wf_unbound_render:
  assumes "wf w" "obj w = None"
  shows "wf (snd (transform a vs er w))"
proof -
  have s: "subscription w = None" "latestValue w = VNull" "latestReturnedValue w = VNull"
    using assms by (simp_all add: wf_iff)
  note c = wf_closed [OF assms(1) s(1)]
  show ?thesis
  proof (cases a)
    case (Obs p)
    show ?thesis
    proof (cases er)
      case None
      then show ?thesis using assms(2) Obs s c
        by (simp add: transform_unbound_returns wf_iff nth_append)
    next
      case (Some e)
      then show ?thesis using assms(2) Obs s c
        by (simp add: transform_unbound_throws wf_iff nth_append)
    qed
  next
    case NullArg
    then show ?thesis using assms(2) s c by (simp add: transform_unbound_absent wf_iff)
  next
    case UndefinedArg
    then show ?thesis using assms(2) s c by (simp add: transform_unbound_absent wf_iff)
  qed
qed

lemma wf_transform:
  assumes "wf w"
  shows "wf (snd (transform a vs er w))"
proof (cases "obj w")
  case None
  then show ?thesis using assms by (rule wf_unbound_render [rotated])
next
  case (Some cur)
  show ?thesis
  proof (cases "a = Obs cur")
    case True
    then show ?thesis using assms Some by (simp add: transform_same wf_iff)
  next
    case False
    show ?thesis
    proof (cases "subscription w")
      case None
      then show ?thesis using assms Some False by (simp add: transform_rebind dispose_broken)
    next
      case h: (Some h)
      let ?d = "(unsubscribe h w)\<lparr>latestValue := VNull, latestReturnedValue := VNull,
                                   subscription := None, obj := None\<rparr>"
      have "wf ?d" using assms h wf_dispose [of w ?d] by (simp add: dispose_bound)
      then have "wf (snd (transform a vs er ?d))" by (rule wf_unbound_render) simp
      then show ?thesis using Some False h by (simp add: transform_rebind dispose_bound)
    qed
  qed
qed

lemma ended_update:
  "i < length xs \<Longrightarrow>
   ended (xs[h := (xs ! h)\<lparr>ended := True\<rparr>] ! i) = (i = h \<or> ended (xs ! i))"
  by (cases "i = h") simp_all

lemma wf_fail:
  assumes "wf w"
  shows "wf (snd (fail h e w))"
proof (cases "open_sub h w")
  case False
  then show ?thesis using assms by (simp add: fail_def)
next
  case True
  let ?xs = "(subs w)[h := (subs w ! h)\<lparr>ended := True\<rparr>]"
  have "snd (fail h e w) = w\<lparr>subs := ?xs\<rparr>" using True by (simp add: fail_def on_error_def)
  moreover have "wf (w\<lparr>subs := ?xs\<rparr>)"
    using assms by (auto simp: wf_iff ended_update_frame ended_update)
  ultimately show ?thesis by simp
qed

lemma wf_exec: "wf w \<Longrightarrow> wf (exec x w)"
proof (cases x)
  case (Render a vs er)
  assume "wf w"
  then have "wf (snd (transform a vs er w))" by (rule wf_transform)
  then show ?thesis using Render
    by (cases "transform a vs er w") (auto simp: wf_throw split: sum.splits)
next
  case (Emit h v)
  assume "wf w" then show ?thesis using Emit by (simp add: emit_def wf_on_next)
next
  case (Late h v)
  assume "wf w" then show ?thesis using Late by (simp add: late_def wf_on_next)
next
  case (Fail h e)
  assume "wf w"
  then have "wf (snd (fail h e w))" by (rule wf_fail)
  then show ?thesis using Fail by (cases "fail h e w") (auto simp: wf_throw split: sum.splits)
next
  case Teardown
  assume "wf w" then show ?thesis using Teardown
    by (auto simp: ngOnDestroy_def wf_throw split: sum.splits dest: wf_dispose)
next
  case (Hop z)
  assume "wf w" then show ?thesis using Hop by (simp add: wf_iff)
qed

lemma wf_run: "wf w \<Longrightarrow> wf (run xs w)"
  unfolding run_def by (induction xs arbitrary: w) (simp_all add: wf_exec)

section \<open>The error path\<close>

lemma fail_subs_cancelled: "map cancelled (subs (snd (fail h e w))) = map cancelled (subs w)"
proof -
  have "map cancelled ((subs w)[h := (subs w ! h)\<lparr>ended := True\<rparr>]) = map cancelled (subs w)"
    by (rule nth_equalityI) (simp_all add: ended_update_frame)
  then show ?thesis by (simp add: fail_def on_error_def)
qed

text \<open>
  Claim C10. The error callback only throws: it hands back the error it was given and the
  state it found. When a producer signals an error, the four fields of the binding keep
  their values, no refresh is requested, nothing is logged and no handle is unsubscribed.
\<close>

theorem error_path_keeps_binding:
  "on_error e w = (Inl (Thrown e), w)
   \<and> binding (exec (Fail h e) w) = binding w
   \<and> trace (exec (Fail h e) w) = trace w
   \<and> checks (exec (Fail h e) w) = checks w
   \<and> map cancelled (subs (exec (Fail h e) w)) = map cancelled (subs w)"
proof -
  have "subs (exec (Fail h e) w) = subs (snd (fail h e w))"
    by (simp add: fail_def on_error_def throw_def)
  then have "map cancelled (subs (exec (Fail h e) w)) = map cancelled (subs w)"
    by (simp add: fail_subs_cancelled)
  moreover have "binding (exec (Fail h e) w) = binding w"
      "trace (exec (Fail h e) w) = trace w" "checks (exec (Fail h e) w) = checks w"
    by (simp_all add: fail_def on_error_def throw_def binding_def)
  moreover have "on_error e w = (Inl (Thrown e), w)" by (simp add: on_error_def)
  ultimately show ?thesis by (intro conjI)
qed

theorem error_path_keeps_binding_witness:
  "binding (exec (Fail 0 (VStr ''boom''))
      (run [Render (Obs 1) [] None, Emit 0 (VNum 4)] (init Tracked)))
     = (VNum 4, VNull, Some 0, Some 1)
   \<and> fst (on_error (VStr ''boom'') (run [Render (Obs 1) [] None, Emit 0 (VNum 4)] (init Tracked)))
       = Inl (Thrown (VStr ''boom''))"
proof -
  have "binding (run [Render (Obs 1) [] None, Emit 0 (VNum 4)] (init Tracked))
     = (VNum 4, VNull, Some 0, Some 1)"
    by (simp add: pipe_eval binding_def)
  then show ?thesis
    using error_path_keeps_binding [where e = "VStr ''boom''" and h = 0
          and w = "run [Render (Obs 1) [] None, Emit 0 (VNum 4)] (init Tracked)"]
    by simp
qed


section \<open>Rendering nothing\<close>

text \<open>
  Claim C9. On an unbound pipe, \<^verbatim>\<open>transform(null)\<close> and \<^verbatim>\<open>transform(undefined)\<close> return
  null and leave the whole state as it was: no field changes, no subscription is made,
  nothing is logged.
\<close>

theorem absent_render_on_unbound:
  assumes "wf w" and "obj w = None" and "a = NullArg \<or> a = UndefinedArg"
  shows "transform a vs er w = (Inr (Plain VNull), w)"
proof -
  have "latestValue w = VNull" "latestReturnedValue w = VNull"
    using assms(1,2) by (simp_all add: wf_iff)
  then have "w\<lparr>latestReturnedValue := latestValue w\<rparr> = w" by simp
  then show ?thesis using assms(2,3) \<open>latestValue w = VNull\<close>
    by (simp add: transform_unbound_absent)
qed

theorem absent_render_on_unbound_witness:
  "wf (init Tracked) \<and> obj (init Tracked) = None
   \<and> transform UndefinedArg [] None (init Tracked) = (Inr (Plain VNull), init Tracked)"
  using absent_render_on_unbound [of "init Tracked" UndefinedArg "[]" None]
  by (simp add: wf_init) (simp add: init_def)


section \<open>Unchanged read\<close>

text \<open>
  Two renders of the bound source in a row, nothing emitted in between: the second returns
  the value of the first, unwrapped, and changes nothing, as long as the cached value is
  not NaN.
\<close>

lemma unchanged_read_idempotent:
  assumes "obj w = Some p" "latestValue w \<noteq> VNaN"
  shows "\<exists>r1 w1. transform (Obs p) vs er w = (Inr r1, w1)
           \<and> transform (Obs p) vs' er' w1 = (Inr (Plain (unwrap r1)), w1)"
  using assms by (auto simp: transform_same strict_eq_def)

text \<open>
  Claim C7. The unchanged-read check is \<^verbatim>\<open>this._latestValue === this._latestReturnedValue\<close>,
  and NaN is not \<^verbatim>\<open>===\<close> to itself: once a producer has emitted NaN, every render
  returns it wrapped in the marker again, with no emission in between and the binding
  unchanged.
\<close>

theorem unchanged_read_rewraps_nan:
  "fst (transform (Obs 1) [] None
       (run [Render (Obs 1) [] None, Emit 0 VNaN] (init Tracked)))
     = Inr (Wrapped VNaN)
   \<and> fst (transform (Obs 1) [] None
       (run [Render (Obs 1) [] None, Emit 0 VNaN, Render (Obs 1) [] None] (init Tracked)))
     = Inr (Wrapped VNaN)
   \<and> binding (run [Render (Obs 1) [] None, Emit 0 VNaN, Render (Obs 1) [] None,
                   Render (Obs 1) [] None] (init Tracked))
     = binding (run [Render (Obs 1) [] None, Emit 0 VNaN, Render (Obs 1) [] None] (init Tracked))"
  by (simp add: pipe_eval binding_def)

section \<open>Who writes the cached value\<close>

lemma exec_render_fields:
  "latestValue (exec (Render a vs er) w) = latestValue (snd (transform a vs er w))"
  "latestReturnedValue (exec (Render a vs er) w) = latestReturnedValue (snd (transform a vs er w))"
  "subscription (exec (Render a vs er) w) = subscription (snd (transform a vs er w))"
  "obj (exec (Render a vs er) w) = obj (snd (transform a vs er w))"
  "subs (exec (Render a vs er) w) = subs (snd (transform a vs er w))"
  "trace (exec (Render a vs er) w) = trace (snd (transform a vs er w))"
  "checks (exec (Render a vs er) w) = checks (snd (transform a vs er w))"
  "zone (exec (Render a vs er) w) = zone (snd (transform a vs er w))"
  by (cases "transform a vs er w"; simp add: throw_def split: sum.splits)+

lemma transform_rebind_obs:
  assumes "obj w = Some cur" "cur \<noteq> p" "subscription w = Some h"
  shows "transform (Obs p) vs er w =
     transform (Obs p) vs er
       ((unsubscribe h w)\<lparr>latestValue := VNull, latestReturnedValue := VNull,
                          subscription := None, obj := None\<rparr>)"
  using assms by (simp add: transform_rebind dispose_bound)

lemma transform_rebind_absent:
  assumes "obj w = Some cur" "a = NullArg \<or> a = UndefinedArg" "subscription w = Some h"
  shows "transform a vs er w =
     (Inr (Plain VNull),
      (unsubscribe h w)\<lparr>latestValue := VNull, latestReturnedValue := VNull,
                         subscription := None, obj := None\<rparr>)"
proof -
  have "a \<noteq> Obs cur" using assms(2) by auto
  then show ?thesis using assms
    by (simp add: transform_rebind dispose_bound transform_unbound_absent)
qed

lemma transform_broken:
  assumes "obj w = Some cur" "a \<noteq> Obs cur" "subscription w = None"
  shows "transform a vs er w = (Inl TypeError, w)"
  using assms by (simp add: transform_rebind dispose_broken)

lemma unbound_render_latest:
  assumes "obj w = None"
  shows "latestValue (snd (transform a vs er w))
           = (if (\<exists>p. a = Obs p) \<and> vs \<noteq> [] then last vs else latestValue w)
       \<and> obj (snd (transform a vs er w)) = (case a of Obs p \<Rightarrow> Some p | _ \<Rightarrow> None)"
proof (cases a)
  case (Obs p)
  then show ?thesis using assms
    by (cases er) (simp_all add: transform_unbound_returns transform_unbound_throws)
next
  case NullArg
  then show ?thesis using assms by (simp add: transform_unbound_absent)
next
  case UndefinedArg
  then show ?thesis using assms by (simp add: transform_unbound_absent)
qed

lemma render_latest_snd:
  assumes c: "latestValue (snd (transform a vs er w)) \<noteq> latestValue w"
  shows "(latestValue (snd (transform a vs er w)) = VNull \<and> obj w \<noteq> None
           \<and> a \<noteq> Obs (the (obj w)))
   \<or> (\<exists>p. a = Obs p \<and> vs \<noteq> [] \<and> obj w \<noteq> Some p
          \<and> obj (snd (transform a vs er w)) = Some p
          \<and> latestValue (snd (transform a vs er w)) = last vs)"
proof (cases "obj w")
  case None
  from unbound_render_latest [OF None, of a vs er] show ?thesis
    using c None by (auto split: if_splits)
next
  case (Some cur)
  show ?thesis
  proof (cases "a = Obs cur")
    case True
    then show ?thesis using Some c
      by (auto simp: transform_same split: if_splits)
  next
    case False
    show ?thesis
    proof (cases "subscription w")
      case None
      then show ?thesis using Some False c
        by (simp add: transform_broken)
    next
      case h: (Some h)
      let ?d = "(unsubscribe h w)\<lparr>latestValue := VNull, latestReturnedValue := VNull,
                                   subscription := None, obj := None\<rparr>"
      have t: "transform a vs er w = transform a vs er ?d"
        using Some False h by (simp add: transform_rebind dispose_bound)
      have "obj ?d = None" by simp
      from unbound_render_latest [OF this, of a vs er] show ?thesis
        using c Some False by (auto simp: t split: if_splits)
    qed
  qed
qed

lemma render_latest:
  assumes "latestValue (exec (Render a vs er) w) \<noteq> latestValue w"
  shows "(latestValue (exec (Render a vs er) w) = VNull \<and> obj w \<noteq> None \<and> a \<noteq> Obs (the (obj w)))
   \<or> (\<exists>p. a = Obs p \<and> vs \<noteq> [] \<and> obj w \<noteq> Some p \<and> obj (exec (Render a vs er) w) = Some p
          \<and> latestValue (exec (Render a vs er) w) = last vs)"
  using assms render_latest_snd [of a vs er w] unfolding exec_render_fields by blast

text \<open>
  Claim C6, amended. The \<^verbatim>\<open>next\<close> callback of a handle writes the cached value exactly
  when the producer that the handle was made on is the bound source, whether or not the
  handle is the registered one or has been unsubscribed; a delivery from a subscription to
  any other producer changes nothing at all. Apart from deliveries, only \<^verbatim>\<open>_dispose\<close>
  changes the cached value, to null: on teardown and on rebinding. A render changes it in
  no other way than by that reset or by what the producer it subscribes to emits meanwhile.
\<close>

theorem latest_value_writers:
  "late h v w =
     (if h < length (subs w) \<and> obj w = Some (producer (subs w ! h))
      then w\<lparr>latestValue := v, checks := Suc (checks w),
             trace := trace w @ [Cached v Tracked, Marked Tracked]\<rparr>
      else w)
   \<and> emit h v w =
     (if open_sub h w \<and> obj w = Some (producer (subs w ! h))
      then w\<lparr>latestValue := v, checks := Suc (checks w),
             trace := trace w @ [Cached v Tracked, Marked Tracked]\<rparr>
      else w)
   \<and> latestValue (exec (Fail h e) w) = latestValue w
   \<and> latestValue (exec (Hop z) w) = latestValue w
   \<and> latestValue (exec Teardown w) = (if subscription w = None then latestValue w else VNull)
   \<and> (latestValue (exec (Render a vs er) w) \<noteq> latestValue w \<longrightarrow>
        (latestValue (exec (Render a vs er) w) = VNull \<and> obj w \<noteq> None \<and> a \<noteq> Obs (the (obj w)))
      \<or> (\<exists>p. a = Obs p \<and> vs \<noteq> [] \<and> obj w \<noteq> Some p \<and> obj (exec (Render a vs er) w) = Some p
             \<and> latestValue (exec (Render a vs er) w) = last vs))"
proof (intro conjI)
  show "late h v w =
     (if h < length (subs w) \<and> obj w = Some (producer (subs w ! h))
      then w\<lparr>latestValue := v, checks := Suc (checks w),
             trace := trace w @ [Cached v Tracked, Marked Tracked]\<rparr>
      else w)"
    by (simp add: late_def on_next_bound on_next_stale)
  show "emit h v w =
     (if open_sub h w \<and> obj w = Some (producer (subs w ! h))
      then w\<lparr>latestValue := v, checks := Suc (checks w),
             trace := trace w @ [Cached v Tracked, Marked Tracked]\<rparr>
      else w)"
    by (simp add: emit_def on_next_bound on_next_stale)
  show "latestValue (exec (Fail h e) w) = latestValue w"
    by (simp add: fail_def on_error_def throw_def)
  show "latestValue (exec (Hop z) w) = latestValue w" by simp
  show "latestValue (exec Teardown w) = (if subscription w = None then latestValue w else VNull)"
    by (auto simp: ngOnDestroy_def dispose_def)
  show "latestValue (exec (Render a vs er) w) \<noteq> latestValue w \<longrightarrow>
        (latestValue (exec (Render a vs er) w) = VNull \<and> obj w \<noteq> None \<and> a \<noteq> Obs (the (obj w)))
      \<or> (\<exists>p. a = Obs p \<and> vs \<noteq> [] \<and> obj w \<noteq> Some p \<and> obj (exec (Render a vs er) w) = Some p
             \<and> latestValue (exec (Render a vs er) w) = last vs)"
    using render_latest by blast
qed

theorem latest_value_writers_witness:
  "latestValue (exec (Render (Obs 2) [] None)
       (run [Render (Obs 1) [] None, Emit 0 (VNum 5)] (init Tracked)))
     \<noteq> latestValue (run [Render (Obs 1) [] None, Emit 0 (VNum 5)] (init Tracked))
   \<and> latestValue (exec (Render (Obs 2) [] None)
        (run [Render (Obs 1) [] None, Emit 0 (VNum 5)] (init Tracked)))
       = VNull
   \<and> obj (run [Render (Obs 1) [] None, Emit 0 (VNum 5)] (init Tracked)) = Some 1
   \<and> late 0 (VNum 9) (run [Render (Obs 1) [] None, Render (Obs 2) [] None] (init Tracked))
       = run [Render (Obs 1) [] None, Render (Obs 2) [] None] (init Tracked)"
proof -
  let ?w = "run [Render (Obs 1) [] None, Emit 0 (VNum 5)] (init Tracked)"
  let ?u = "run [Render (Obs 1) [] None, Render (Obs 2) [] None] (init Tracked)"
  have a: "latestValue (exec (Render (Obs 2) [] None) ?w) \<noteq> latestValue ?w"
    by (simp add: pipe_eval)
  have b: "obj ?w = Some 1" by (simp add: pipe_eval)
  have c: "producer (subs ?u ! 0) = 1" "obj ?u = Some 2"
    by (simp_all add: pipe_eval)
  from latest_value_writers [of 0 "VNum 9" ?u]
  have d: "late 0 (VNum 9) ?u = ?u"
    using c by simp
  from latest_value_writers [of 0 "VNum 9" ?w "VNull" Tracked "Obs 2" "[]" None] a b
  have "latestValue (exec (Render (Obs 2) [] None) ?w) = VNull" by auto
  then show ?thesis using a b d by simp
qed

text \<open>
  As first stated the property fails. After rendering producer 1, then 2, then 1 again,
  handle 2 is registered and handle 0 is unsubscribed, yet the callback of handle 0 still
  writes the cached value, because its producer is bound again. And the teardown of a
  pipe that caches 5 resets the cached value to null without any delivery.
\<close>

theorem latest_value_writers_counterexample:
  "subscription (run [Render (Obs 1) [] None, Render (Obs 2) [] None, Render (Obs 1) [] None]
       (init Tracked)) = Some 2
   \<and> cancelled (subs (run [Render (Obs 1) [] None, Render (Obs 2) [] None, Render (Obs 1) [] None]
       (init Tracked)) ! 0)
   \<and> latestValue (run [Render (Obs 1) [] None, Render (Obs 2) [] None, Render (Obs 1) [] None]
       (init Tracked)) = VNull
   \<and> latestValue (late 0 (VNum 7)
        (run [Render (Obs 1) [] None, Render (Obs 2) [] None, Render (Obs 1) [] None]
          (init Tracked))) = VNum 7
   \<and> latestValue (run [Render (Obs 1) [] None, Emit 0 (VNum 5)] (init Tracked)) = VNum 5
   \<and> latestValue (exec Teardown (run [Render (Obs 1) [] None, Emit 0 (VNum 5)] (init Tracked)))
       = VNull"
  by (simp add: pipe_eval)

section \<open>Handle and source\<close>

lemma paired_unbound_render:
  assumes "obj w = None" "subscription w = None" "er = None \<or> a = NullArg \<or> a = UndefinedArg"
  shows "paired (snd (transform a vs er w))"
proof (cases a)
  case (Obs p)
  then show ?thesis using assms by (simp add: transform_unbound_returns paired_def)
next
  case NullArg
  then show ?thesis using assms by (simp add: transform_unbound_absent paired_def)
next
  case UndefinedArg
  then show ?thesis using assms by (simp add: transform_unbound_absent paired_def)
qed

lemma paired_render:
  assumes "paired w" "er = None \<or> a = NullArg \<or> a = UndefinedArg"
  shows "paired (exec (Render a vs er) w)"
proof -
  have "paired (snd (transform a vs er w))"
  proof (cases "obj w")
    case None
    then have "subscription w = None" using assms(1) by (simp add: paired_def)
    with None show ?thesis using assms(2) by (rule paired_unbound_render)
  next
    case (Some cur)
    show ?thesis
    proof (cases "a = Obs cur")
      case True
      then show ?thesis using Some assms(1) by (simp add: transform_same paired_def)
    next
      case False
      from Some assms(1) obtain h where h: "subscription w = Some h"
        by (auto simp: paired_def)
      let ?d = "(unsubscribe h w)\<lparr>latestValue := VNull, latestReturnedValue := VNull,
                                   subscription := None, obj := None\<rparr>"
      have "paired (snd (transform a vs er ?d))"
        using assms(2) by (intro paired_unbound_render) simp_all
      then show ?thesis using Some False h by (simp add: transform_rebind dispose_bound)
    qed
  qed
  then show ?thesis by (simp add: paired_def exec_render_fields del: exec.simps)
qed

text \<open>
  Every step keeps handle and source together, except a render whose subscription is
  answered with an error before \<^verbatim>\<open>subscribe\<close> returns.
\<close>

lemma paired_exec:
  assumes "paired w" "\<forall>p vs e. x \<noteq> Render (Obs p) vs (Some e)"
  shows "paired (exec x w)"
proof (cases x)
  case (Render a vs er)
  then have "er = None \<or> a = NullArg \<or> a = UndefinedArg"
    using assms(2) by (cases a; cases er) simp_all
  then show ?thesis using Render assms(1) paired_render by simp
next
  case (Emit h v)
  then show ?thesis using assms(1) by (simp add: emit_def paired_def)
next
  case (Late h v)
  then show ?thesis using assms(1) by (simp add: late_def paired_def)
next
  case (Fail h e)
  then show ?thesis using assms(1) by (simp add: fail_def on_error_def throw_def paired_def)
next
  case Teardown
  then show ?thesis using assms(1)
    by (auto simp: ngOnDestroy_def dispose_def paired_def split: option.splits)
next
  case (Hop z')
  then show ?thesis using assms(1) by (simp add: paired_def)
qed

text \<open>
  Claim C5. \<^verbatim>\<open>_subscribe\<close> assigns \<^verbatim>\<open>_obj\<close> before it calls \<^verbatim>\<open>subscribe\<close> and
  \<^verbatim>\<open>_subscription\<close> after. A producer that signals an error while \<^verbatim>\<open>subscribe\<close> runs
  makes the error callback throw in between: the render of a new pipe, on which handle and
  source are both absent, throws that error and leaves the source present without a handle.
\<close>

theorem subscribe_error_unpairs:
  "paired (init Tracked)
   \<and> fst (transform (Obs 1) [] (Some (VStr ''boom'')) (init Tracked))
       = Inl (Thrown (VStr ''boom''))
   \<and> obj (exec (Render (Obs 1) [] (Some (VStr ''boom''))) (init Tracked)) = Some 1
   \<and> subscription (exec (Render (Obs 1) [] (Some (VStr ''boom''))) (init Tracked)) = None
   \<and> \<not> paired (exec (Render (Obs 1) [] (Some (VStr ''boom''))) (init Tracked))"
  by (simp add: pipe_eval paired_def)


section \<open>Rebinding\<close>

lemma render_binds:
  assumes "wf w" "paired w"
  shows "\<exists>r w'. transform (Obs p) vs None w = (Inr r, w') \<and> wf w' \<and> obj w' = Some p
           \<and> subscription w' \<noteq> None"
proof -
  have wf': "wf (snd (transform (Obs p) vs None w))" using assms(1) by (rule wf_transform)
  show ?thesis
  proof (cases "obj w")
    case None
    then show ?thesis using wf' by (simp add: transform_unbound_returns)
  next
    case (Some cur)
    then obtain h where h: "subscription w = Some h" using assms(2) by (auto simp: paired_def)
    show ?thesis
    proof (cases "cur = p")
      case True
      then show ?thesis using wf' Some h by (auto simp: transform_same)
    next
      case False
      then show ?thesis using wf' Some h
        by (simp add: transform_rebind_obs transform_unbound_returns)
    qed
  qed
qed

text \<open>
  Rendering \<open>p1\<close> and then a different producer \<open>p2\<close>, both subscriptions returning: the
  first handle is unsubscribed before the second subscription is established, and a value
  that any subscription to \<open>p1\<close> still delivers changes nothing.
\<close>

lemma rebinding_when_subscribed:
  assumes "wf w0" and "paired w0" and "p1 \<noteq> p2"
  shows "\<exists>r1 w1 h1 r2 w2 h2.
      transform (Obs p1) vs1 None w0 = (Inr r1, w1)
    \<and> subscription w1 = Some h1 \<and> obj w1 = Some p1
    \<and> producer (subs w1 ! h1) = p1 \<and> \<not> cancelled (subs w1 ! h1)
    \<and> transform (Obs p2) vs2 None w1 = (Inr r2, w2)
    \<and> subscription w2 = Some h2 \<and> obj w2 = Some p2 \<and> h2 \<noteq> h1
    \<and> trace w2 = trace w1 @ Unsubscribed h1 # Subscribed p2 h2 Untracked # deliveries vs2
    \<and> cancelled (subs w2 ! h1)
    \<and> (\<forall>v. late h1 v w2 = w2)
    \<and> (\<forall>i v. producer (subs w2 ! i) = p1 \<longrightarrow> late i v w2 = w2 \<and> emit i v w2 = w2)"
proof -
  obtain r1 w1 where t1: "transform (Obs p1) vs1 None w0 = (Inr r1, w1)" "wf w1"
      "obj w1 = Some p1" "subscription w1 \<noteq> None"
    using render_binds [OF assms(1,2)] by blast
  then obtain h1 where h1: "subscription w1 = Some h1" "h1 < length (subs w1)"
      "producer (subs w1 ! h1) = p1" "\<not> cancelled (subs w1 ! h1)"
    by (auto simp: wf_iff)
  let ?d = "(unsubscribe h1 w1)\<lparr>latestValue := VNull, latestReturnedValue := VNull,
                                 subscription := None, obj := None\<rparr>"
  have "obj ?d = None" by simp
  note eq = transform_unbound_returns [OF this, of p2 vs2]
  obtain r2 w2 where t2: "transform (Obs p2) vs2 None w1 = (Inr r2, w2)"
    using transform_rebind_obs [OF t1(3) assms(3) h1(1), of vs2 None] eq by simp
  have w2: "subscription w2 = Some (length (subs w1))" "obj w2 = Some p2"
      "trace w2 = trace w1 @ Unsubscribed h1 # Subscribed p2 (length (subs w1)) Untracked
                  # deliveries vs2"
      "subs w2 = subs (unsubscribe h1 w1)
           @ [\<lparr>producer = p2, origin = Untracked, cancelled = False, ended = False\<rparr>]"
    using t2 transform_rebind_obs [OF t1(3) assms(3) h1(1), of vs2 None] eq
    by (auto simp: unsubscribe_def)
  have c: "cancelled (subs w2 ! h1)"
    using h1(2) by (simp add: w2(4) nth_append unsubscribe_subs)
  have stale: "late i v w2 = w2 \<and> emit i v w2 = w2" if "producer (subs w2 ! i) = p1" for i v
    using that assms(3) w2(2) by (simp add: late_def emit_def on_next_stale)
  have "producer (subs w2 ! h1) = p1"
    using h1(2,3) by (simp add: w2(4) nth_append unsubscribe_subs)
  then have "\<forall>v. late h1 v w2 = w2" using stale by blast
  then show ?thesis using t1 h1 t2 w2(1,2,3) c stale by auto
qed

text \<open>
  Claim C3. Producer 1 signals an error while \<^verbatim>\<open>subscribe\<close> runs, so the pipe is left with
  the source and no handle. The render of producer 2 then raises a \<^verbatim>\<open>TypeError\<close> in
  \<^verbatim>\<open>_dispose\<close> and changes nothing: nothing is unsubscribed, producer 2 is never
  subscribed, producer 1 stays bound, and a value that its callback delivers afterwards is
  cached.
\<close>

theorem rebinding_after_subscribe_error:
  "transform (Obs 2) [] None (exec (Render (Obs 1) [] (Some (VStr ''boom''))) (init Tracked))
     = (Inl TypeError, exec (Render (Obs 1) [] (Some (VStr ''boom''))) (init Tracked))
   \<and> trace (run [Render (Obs 1) [] (Some (VStr ''boom'')), Render (Obs 2) [] None] (init Tracked))
       = [Subscribed 1 0 Untracked]
   \<and> obj (run [Render (Obs 1) [] (Some (VStr ''boom'')), Render (Obs 2) [] None] (init Tracked))
       = Some 1
   \<and> raised (run [Render (Obs 1) [] (Some (VStr ''boom'')), Render (Obs 2) [] None] (init Tracked))
       = [(Thrown (VStr ''boom''), Tracked), (TypeError, Tracked)]
   \<and> latestValue (run [Render (Obs 1) [] (Some (VStr ''boom'')), Render (Obs 2) [] None]
        (init Tracked)) = VNull
   \<and> latestValue (late 0 (VNum 7)
        (run [Render (Obs 1) [] (Some (VStr ''boom'')), Render (Obs 2) [] None] (init Tracked)))
       = VNum 7"
  by (simp add: pipe_eval)

section \<open>First render and emission\<close>

lemma emit_registered:
  assumes "obj w = Some p" "open_sub h w" "producer (subs w ! h) = p"
  shows "emit h v w = w\<lparr>latestValue := v, checks := Suc (checks w),
                         trace := trace w @ [Cached v Tracked, Marked Tracked]\<rparr>"
  using assms by (simp add: emit_def on_next_bound)

text \<open>
  Claim C1, amended. The first render of a producer on an unbound pipe, with no error
  signalled while \<^verbatim>\<open>subscribe\<close> runs, subscribes and returns null when the producer emits
  nothing meanwhile, and the last value emitted meanwhile otherwise, unwrapped in both
  cases. When the producer then emits \<open>v\<close>, the next render returns \<open>v\<close> and records it
  as the last returned value: wrapped in the marker when \<open>v\<close> is not \<^verbatim>\<open>===\<close> the value
  returned before (for the silent producer, when \<open>v\<close> is not null), unwrapped otherwise.
\<close>

theorem first_render_then_emission:
  assumes "wf w" and "obj w = None"
  shows "\<exists>w1 h. transform (Obs p) vs None w
                  = (Inr (Plain (if vs = [] then VNull else last vs)), w1)
      \<and> subscription w1 = Some h \<and> open_sub h w1
      \<and> latestReturnedValue w1 = (if vs = [] then VNull else last vs)
      \<and> (\<forall>v vs' er'. \<exists>w3.
            transform (Obs p) vs' er' (emit h v w1)
              = (Inr (if strict_eq v (latestReturnedValue w1) then Plain v else Wrapped v), w3)
            \<and> latestValue w3 = v \<and> latestReturnedValue w3 = v)
      \<and> (vs = [] \<longrightarrow> (\<forall>v vs' er'. v \<noteq> VNull \<longrightarrow> (\<exists>w3.
            transform (Obs p) vs' er' (emit h v w1) = (Inr (Wrapped v), w3)
            \<and> latestReturnedValue w3 = v)))
      \<and> (vs = [] \<longrightarrow> (\<forall>vs' er'. transform (Obs p) vs' er' (emit h VNull w1)
                                 = (Inr (Plain VNull), emit h VNull w1)))"
proof -
  have nulls: "latestValue w = VNull" using assms by (simp add: wf_iff)
  define lv where "lv = (if vs = [] then VNull else last vs)"
  define w1 where "w1 = w\<lparr>latestValue := lv, latestReturnedValue := lv,
            subscription := Some (length (subs w)), obj := Some p,
            subs := subs w @ [\<lparr>producer = p, origin = Untracked, cancelled = False, ended = False\<rparr>],
            checks := checks w + length vs,
            trace := trace w @ Subscribed p (length (subs w)) Untracked # deliveries vs\<rparr>"
  let ?h = "length (subs w)"
  have t1: "transform (Obs p) vs None w = (Inr (Plain lv), w1)"
    using transform_unbound_returns [OF assms(2), of p vs] nulls by (simp add: w1_def lv_def)
  have f: "subscription w1 = Some ?h" "open_sub ?h w1" "latestReturnedValue w1 = lv"
      "obj w1 = Some p" "producer (subs w1 ! ?h) = p"
    by (simp_all add: w1_def open_sub_def)
  have e: "obj (emit ?h v w1) = Some p" "latestValue (emit ?h v w1) = v"
      "latestReturnedValue (emit ?h v w1) = lv" for v
    using f by (simp_all add: emit_registered)
  have t2: "transform (Obs p) vs' er' (emit ?h v w1)
      = (if strict_eq v lv then (Inr (Plain v), emit ?h v w1)
         else (Inr (Wrapped v), (emit ?h v w1)\<lparr>latestReturnedValue := v\<rparr>))" for v vs' er'
    using e [of v] by (auto simp: transform_same strict_eq_def)
  have g: "\<exists>w3. transform (Obs p) vs' er' (emit ?h v w1)
              = (Inr (if strict_eq v (latestReturnedValue w1) then Plain v else Wrapped v), w3)
            \<and> latestValue w3 = v \<and> latestReturnedValue w3 = v" for v vs' er'
    using e [of v] by (auto simp: t2 f(3) strict_eq_def)
  have a: "vs = [] \<longrightarrow> (\<forall>v vs' er'. v \<noteq> VNull \<longrightarrow> (\<exists>w3.
            transform (Obs p) vs' er' (emit ?h v w1) = (Inr (Wrapped v), w3)
            \<and> latestReturnedValue w3 = v))"
    by (auto simp: t2 lv_def strict_eq_def)
  have b: "vs = [] \<longrightarrow> (\<forall>vs' er'. transform (Obs p) vs' er' (emit ?h VNull w1)
                                 = (Inr (Plain VNull), emit ?h VNull w1))"
    by (auto simp: t2 lv_def strict_eq_def)
  show ?thesis
    by (rule exI [of _ w1], rule exI [of _ ?h], intro conjI)
       (use t1 f g a b in \<open>simp_all add: lv_def del: split_paired_All split_paired_Ex\<close>)
qed

theorem first_render_then_emission_witness:
  "wf (init Tracked) \<and> obj (init Tracked) = None
   \<and> fst (transform (Obs 1) [] None (init Tracked)) = Inr (Plain VNull)
   \<and> fst (transform (Obs 1) [] None (run [Render (Obs 1) [] None, Emit 0 (VNum 7)] (init Tracked)))
        = Inr (Wrapped (VNum 7))"
proof -
  have "fst (transform (Obs 1) [] None (init Tracked)) = Inr (Plain VNull)"
    by (simp add: pipe_eval)
  moreover have
    "fst (transform (Obs 1) [] None (run [Render (Obs 1) [] None, Emit 0 (VNum 7)] (init Tracked)))
        = Inr (Wrapped (VNum 7))"
    by (simp add: pipe_eval)
  ultimately show ?thesis
    using first_render_then_emission [of "init Tracked" 1 "[]"]
    by (simp add: wf_init) (simp add: init_def)
qed

text \<open>
  As first stated the property fails twice: a producer that emits null is answered with a
  plain null, although the delivery was processed; and a producer that emits 5 while
  \<^verbatim>\<open>subscribe\<close> runs has 5, not null, returned by the first render.
\<close>

theorem first_render_then_emission_counterexample:
  "fst (transform (Obs 1) [] None (run [Render (Obs 1) [] None, Emit 0 VNull] (init Tracked)))
     = Inr (Plain VNull)
   \<and> latestValue (run [Render (Obs 1) [] None, Emit 0 VNull] (init Tracked)) = VNull
   \<and> checks (run [Render (Obs 1) [] None, Emit 0 VNull] (init Tracked)) = 1
   \<and> fst (transform (Obs 1) [VNum 5] None (init Tracked)) = Inr (Plain (VNum 5))"
  by (simp add: pipe_eval)


section \<open>Teardown\<close>

lemma render_like_initial:
  assumes "obj w = None" "latestValue w = VNull" "subscription w = None"
    "latestReturnedValue w = VNull"
  shows "fst (transform a vs er w) = fst (transform a vs er (init z))
      \<and> latestValue (snd (transform a vs er w)) = latestValue (snd (transform a vs er (init z)))
      \<and> latestReturnedValue (snd (transform a vs er w))
          = latestReturnedValue (snd (transform a vs er (init z)))
      \<and> obj (snd (transform a vs er w)) = obj (snd (transform a vs er (init z)))
      \<and> (subscription (snd (transform a vs er w)) = None)
          = (subscription (snd (transform a vs er (init z))) = None)
      \<and> (er = None \<longrightarrow> fst (transform a vs er w)
            = Inr (Plain (if (\<exists>p. a = Obs p) \<and> vs \<noteq> [] then last vs else VNull)))
      \<and> (\<forall>p. a = Obs p \<and> er = None \<longrightarrow>
            subscription (snd (transform a vs er w)) = Some (length (subs w))
            \<and> trace (snd (transform a vs er w))
                = trace w @ Subscribed p (length (subs w)) Untracked # deliveries vs)"
proof -
  have i: "obj (init z) = None" "latestValue (init z) = VNull" "subscription (init z) = None"
      "latestReturnedValue (init z) = VNull"
    by (simp_all add: init_def)
  show ?thesis
  proof (cases a)
    case (Obs p)
    then show ?thesis using assms i
      by (cases er) (simp_all add: transform_unbound_returns transform_unbound_throws)
  next
    case NullArg
    then show ?thesis using assms i by (simp add: transform_unbound_absent)
  next
    case UndefinedArg
    then show ?thesis using assms i by (simp add: transform_unbound_absent)
  qed
qed

text \<open>
  Claim C4, amended. On a well-formed pipe where handle and source come together,
  \<^verbatim>\<open>ngOnDestroy\<close> does not raise. With a handle registered it unsubscribes that handle
  and resets the four fields to those of a new pipe, leaving no handle through which a
  value may be delivered; on an unbound pipe it changes nothing; a second call changes
  nothing either. A render after it has the result of the same render on a new pipe and
  leaves the same cached values and source: with a producer that signals no error it
  subscribes and returns null when nothing is emitted while \<^verbatim>\<open>subscribe\<close> runs, and the
  last value emitted meanwhile otherwise.
\<close>

theorem teardown_resets:
  assumes "wf w" and "paired w"
  shows "\<exists>w'. ngOnDestroy w = Inr w'
      \<and> binding w' = binding (init z)
      \<and> (\<forall>h. subscription w = Some h \<longrightarrow>
            cancelled (subs w' ! h) \<and> trace w' = trace w @ [Unsubscribed h])
      \<and> (\<forall>i. \<not> open_sub i w')
      \<and> (subscription w = None \<longrightarrow> w' = w)
      \<and> ngOnDestroy w' = Inr w'
      \<and> fst (transform a vs er w') = fst (transform a vs er (init z))
      \<and> latestValue (snd (transform a vs er w'))
          = latestValue (snd (transform a vs er (init z)))
      \<and> latestReturnedValue (snd (transform a vs er w'))
          = latestReturnedValue (snd (transform a vs er (init z)))
      \<and> obj (snd (transform a vs er w')) = obj (snd (transform a vs er (init z)))
      \<and> (subscription (snd (transform a vs er w')) = None)
          = (subscription (snd (transform a vs er (init z))) = None)
      \<and> (er = None \<longrightarrow> fst (transform a vs er w')
            = Inr (Plain (if (\<exists>p. a = Obs p) \<and> vs \<noteq> [] then last vs else VNull)))
      \<and> (\<forall>p. a = Obs p \<and> er = None \<longrightarrow>
            subscription (snd (transform a vs er w')) = Some (length (subs w'))
            \<and> trace (snd (transform a vs er w'))
                = trace w' @ Subscribed p (length (subs w')) Untracked # deliveries vs)"
proof -
  obtain w' where d: "ngOnDestroy w = Inr w'"
    by (cases "subscription w") (auto simp: ngOnDestroy_def dispose_def)
  have unb: "subscription w' = None"
    using d by (auto simp: ngOnDestroy_def dispose_def split: option.splits if_splits)
  have o: "obj w' = None"
    using d assms(2)
    by (auto simp: ngOnDestroy_def dispose_def paired_def split: option.splits if_splits)
  have wf': "wf w'" using wf_exec [OF assms(1), of Teardown] d by simp
  have cl: "\<forall>i. \<not> open_sub i w'"
    using wf_closed [OF wf' unb] by (auto simp: open_sub_def)
  from wf' have fields: "latestValue w' = VNull" "latestReturnedValue w' = VNull"
    using o by (simp_all add: wf_iff)
  have b: "binding w' = binding (init z)"
    using unb o fields by (simp add: binding_def init_def)
  have h: "\<forall>h. subscription w = Some h \<longrightarrow>
            cancelled (subs w' ! h) \<and> trace w' = trace w @ [Unsubscribed h]"
  proof (intro allI impI)
    fix h assume s: "subscription w = Some h"
    then have "h < length (subs w)" using assms(1) by (simp add: wf_iff)
    moreover have "w' = (unsubscribe h w)\<lparr>latestValue := VNull, latestReturnedValue := VNull,
                                        subscription := None, obj := None\<rparr>"
      using d s by (simp add: ngOnDestroy_def dispose_bound)
    ultimately show "cancelled (subs w' ! h) \<and> trace w' = trace w @ [Unsubscribed h]"
      by (simp add: unsubscribe_subs) (simp add: unsubscribe_def)
  qed
  have n: "subscription w = None \<longrightarrow> w' = w" using d by (auto simp: ngOnDestroy_def)
  have i: "ngOnDestroy w' = Inr w'" using unb by (simp add: ngOnDestroy_def)
  note r = render_like_initial [OF o fields(1) unb fields(2), of a vs er z]
  show ?thesis
    by (rule exI [of _ w'], intro conjI)
       (use d b h cl n i r in \<open>simp_all del: split_paired_All split_paired_Ex\<close>)
qed

theorem teardown_resets_witness:
  "wf (run [Render (Obs 1) [] None, Emit 0 (VNum 3), Render (Obs 1) [] None] (init Tracked))
   \<and> paired (run [Render (Obs 1) [] None, Emit 0 (VNum 3), Render (Obs 1) [] None] (init Tracked))
   \<and> binding (exec Teardown
        (run [Render (Obs 1) [] None, Emit 0 (VNum 3), Render (Obs 1) [] None] (init Tracked)))
       = (VNull, VNull, None, None)
   \<and> binding (run [Render (Obs 1) [] None, Emit 0 (VNum 3), Render (Obs 1) [] None] (init Tracked))
       = (VNum 3, VNum 3, Some 0, Some 1)"
proof -
  let ?w = "run [Render (Obs 1) [] None, Emit 0 (VNum 3), Render (Obs 1) [] None] (init Tracked)"
  have "binding (exec Teardown ?w) = (VNull, VNull, None, None)"
    by (simp add: pipe_eval binding_def)
  moreover have "binding ?w = (VNum 3, VNum 3, Some 0, Some 1)"
    by (simp add: pipe_eval binding_def)
  moreover have w: "wf ?w"
    by (rule wf_run) (rule wf_init)
  moreover have p: "paired ?w" by (simp add: pipe_eval paired_def)
  ultimately show ?thesis
    using teardown_resets [OF w p, of Tracked "Obs 1" "[]" None] by simp
qed

text \<open>
  As first stated the property fails: after a teardown, the render of a producer that
  emits 5 while \<^verbatim>\<open>subscribe\<close> runs returns 5, as it does on a new pipe, not null.
\<close>

theorem teardown_resets_counterexample:
  "fst (transform (Obs 2) [VNum 5] None
        (exec Teardown (run [Render (Obs 1) [] None, Emit 0 (VNum 3)] (init Tracked))))
     = Inr (Plain (VNum 5))
   \<and> fst (transform (Obs 2) [VNum 5] None (init Tracked)) = Inr (Plain (VNum 5))
   \<and> binding (exec Teardown (run [Render (Obs 1) [] None, Emit 0 (VNum 3)] (init Tracked)))
       = (VNull, VNull, None, None)"
  by (simp add: pipe_eval binding_def)

section \<open>The two contexts\<close>

lemma zone_ok_deliveries: "list_all zone_ok (deliveries vs)"
  by (induction vs) simp_all

lemma marks_deliveries: "length [e \<leftarrow> deliveries vs. e = Marked Tracked] = length vs"
  by (induction vs) simp_all

lemma origin_after_flag:
  assumes "list_all (\<lambda>s. origin s = Untracked) xs" "origin y = origin (xs ! h)"
  shows "list_all (\<lambda>s. origin s = Untracked) (xs[h := y])"
proof (cases "h < length xs")
  case True
  then have "origin y = Untracked" using assms by (simp add: list_all_length)
  then show ?thesis using assms(1) set_update_subset_insert [of xs h y]
    by (auto simp: list_all_iff)
next
  case False
  then show ?thesis using assms(1) by (simp add: list_update_beyond)
qed

lemma zoned_on_next: "zoned w \<Longrightarrow> zoned (on_next p v w)"
  by (cases "obj w = Some p") (simp_all add: on_next_stale on_next_bound zoned_def)

lemma zoned_throw: "zoned w \<Longrightarrow> zoned (throw x w)"
  by (simp add: zoned_def throw_def)

lemma zoned_dispose: "zoned w \<Longrightarrow> dispose w = Inr w' \<Longrightarrow> zoned w'"
  by (auto simp: zoned_def dispose_def unsubscribe_def origin_after_flag split: option.splits)

lemma zoned_unbound_render:
  assumes "zoned w" "obj w = None"
  shows "zoned (snd (transform a vs er w))"
proof (cases a)
  case (Obs p)
  then show ?thesis using assms
    by (cases er)
       (simp_all add: transform_unbound_returns transform_unbound_throws zoned_def
          zone_ok_deliveries marks_deliveries)
next
  case NullArg
  then show ?thesis using assms by (simp add: transform_unbound_absent zoned_def)
next
  case UndefinedArg
  then show ?thesis using assms by (simp add: transform_unbound_absent zoned_def)
qed

lemma zoned_transform:
  assumes "zoned w"
  shows "zoned (snd (transform a vs er w))"
proof (cases "obj w")
  case None
  then show ?thesis using assms zoned_unbound_render by blast
next
  case (Some cur)
  show ?thesis
  proof (cases "a = Obs cur")
    case True
    then show ?thesis using assms Some by (simp add: transform_same zoned_def)
  next
    case False
    show ?thesis
    proof (cases "dispose w")
      case (Inl x)
      then show ?thesis using assms Some False by (simp add: transform_rebind)
    next
      case (Inr w1)
      then have "obj w1 = None" by (auto simp: dispose_def split: option.splits)
      moreover have "zoned w1" using assms Inr by (rule zoned_dispose)
      ultimately have "zoned (snd (transform a vs er w1))" by (rule zoned_unbound_render [rotated])
      then show ?thesis using Some False Inr by (simp add: transform_rebind)
    qed
  qed
qed

lemma zoned_exec: "zoned w \<Longrightarrow> zoned (exec x w)"
proof (cases x)
  case (Render a vs er)
  assume "zoned w"
  then have "zoned (snd (transform a vs er w))" by (rule zoned_transform)
  then show ?thesis using Render
    by (cases "transform a vs er w") (auto simp: zoned_throw split: sum.splits)
next
  case (Emit h v)
  assume "zoned w" then show ?thesis using Emit by (simp add: emit_def zoned_on_next)
next
  case (Late h v)
  assume "zoned w" then show ?thesis using Late by (simp add: late_def zoned_on_next)
next
  case (Fail h e)
  assume "zoned w" then show ?thesis using Fail
    by (simp add: fail_def on_error_def throw_def zoned_def origin_after_flag)
next
  case Teardown
  assume "zoned w" then show ?thesis using Teardown zoned_dispose [of w]
    by (cases "dispose w") (auto simp: ngOnDestroy_def zoned_throw)
next
  case (Hop z)
  assume "zoned w" then show ?thesis using Hop by (simp add: zoned_def)
qed

lemma zoned_run: "zoned w \<Longrightarrow> zoned (run xs w)"
  unfolding run_def by (induction xs arbitrary: w) (simp_all add: zoned_exec)

text \<open>
  Claim C2. Whatever the host and the producers do, and in whatever context they do it,
  every subscription is established in the untracked context, so nothing that the tracked
  context waits for is ever pending; every write to the cached value and every refresh
  request happens in the tracked context, and no refresh is requested but those.
  \<^verbatim>\<open>_subscribe\<close> registers the listener in the untracked context and comes back to the
  context of its caller, whether \<^verbatim>\<open>subscribe\<close> returns or throws. The \<^verbatim>\<open>next\<close> callback
  of the bound source enters the tracked context, writes the cached value there, then
  requests the refresh there, and comes back; that of any other producer changes nothing.
\<close>

theorem subscription_untracked_delivery_tracked:
  "list_all zone_ok (trace (run xs (init z)))
   \<and> list_all (\<lambda>s. origin s = Untracked) (subs (run xs (init z)))
   \<and> tracked_pending (run xs (init z)) = []
   \<and> checks (run xs (init z)) = length [e \<leftarrow> trace (run xs (init z)). e = Marked Tracked]
   \<and> zone (snd (subscribe p vs er w)) = zone w
   \<and> trace (snd (subscribe p vs er w))
       = trace w @ Subscribed p (length (subs w)) Untracked # deliveries vs
   \<and> subs (snd (subscribe p vs er w))
       = subs w @ [\<lparr>producer = p, origin = Untracked, cancelled = False, ended = (er \<noteq> None)\<rparr>]
   \<and> on_next p v w
       = (if obj w = Some p
          then w\<lparr>latestValue := v, checks := Suc (checks w),
                 trace := trace w @ [Cached v Tracked, Marked Tracked]\<rparr>
          else w)"
proof -
  have "zoned (init z)" by (simp add: zoned_def init_def)
  then have z: "zoned (run xs (init z))" by (rule zoned_run)
  then have "tracked_pending (run xs (init z)) = []"
    by (auto simp: tracked_pending_def zoned_def filter_empty_conv list_all_iff)
  moreover have "on_next p v w
       = (if obj w = Some p
          then w\<lparr>latestValue := v, checks := Suc (checks w),
                 trace := trace w @ [Cached v Tracked, Marked Tracked]\<rparr>
          else w)"
    by (simp add: on_next_stale on_next_bound)
  moreover have "zone (snd (subscribe p vs er w)) = zone w"
      "trace (snd (subscribe p vs er w))
       = trace w @ Subscribed p (length (subs w)) Untracked # deliveries vs"
      "subs (snd (subscribe p vs er w))
       = subs w @ [\<lparr>producer = p, origin = Untracked, cancelled = False, ended = (er \<noteq> None)\<rparr>]"
    by (cases er; simp add: subscribe_returns subscribe_throws)+
  ultimately show ?thesis using z unfolding zoned_def by (intro conjI) simp_all
qed

theorem subscription_untracked_delivery_tracked_witness:
  "trace (run [Hop Tracked, Render (Obs 1) [VNum 0] None, Hop Untracked, Emit 0 (VNum 1)]
       (init Tracked))
     = [Subscribed 1 0 Untracked, Cached (VNum 0) Tracked, Marked Tracked,
        Cached (VNum 1) Tracked, Marked Tracked]
   \<and> latestValue (run [Hop Tracked, Render (Obs 1) [VNum 0] None, Hop Untracked, Emit 0 (VNum 1)]
       (init Tracked)) = VNum 1
   \<and> checks (run [Hop Tracked, Render (Obs 1) [VNum 0] None, Hop Untracked, Emit 0 (VNum 1)]
       (init Tracked)) = 2
   \<and> list_all zone_ok
        (trace (run [Hop Tracked, Render (Obs 1) [VNum 0] None, Hop Untracked, Emit 0 (VNum 1)]
          (init Tracked)))
   \<and> tracked_pending
        (run [Hop Tracked, Render (Obs 1) [VNum 0] None, Hop Untracked, Emit 0 (VNum 1)]
          (init Tracked)) = []
   \<and> latestValue (on_next 1 (VNum 8) (run [Render (Obs 1) [] None] (init Untracked))) = VNum 8
   \<and> checks (on_next 1 (VNum 8) (run [Render (Obs 1) [] None] (init Untracked))) = 1
   \<and> zone (on_next 1 (VNum 8) (run [Render (Obs 1) [] None] (init Untracked))) = Untracked"
proof -
  let ?xs = "[Hop Tracked, Render (Obs 1) [VNum 0] None, Hop Untracked, Emit 0 (VNum 1)]"
  let ?u = "run [Render (Obs 1) [] None] (init Untracked)"
  have t: "trace (run ?xs (init Tracked))
     = [Subscribed 1 0 Untracked, Cached (VNum 0) Tracked, Marked Tracked,
        Cached (VNum 1) Tracked, Marked Tracked]"
    "latestValue (run ?xs (init Tracked)) = VNum 1"
    by (simp_all add: pipe_eval)
  have u: "obj ?u = Some 1" "checks ?u = 0" "zone ?u = Untracked"
    by (simp_all add: pipe_eval)
  from subscription_untracked_delivery_tracked [of ?xs Tracked 1 "[]" None ?u "VNum 8"]
  show ?thesis using t u by simp
qed

section \<open>A producer error\<close>












end
